theory Spec2Isabelle
  imports Complex_Main
begin

section \<open>Data model (types/index.ts)\<close>

text \<open>
  The interfaces of the package become records. JavaScript numbers that hold epoch
  milliseconds and counters are modelled as unbounded integers (doubles are exact on
  integers below \<open>2^53\<close>). A field declared with \<open>?\<close> is an \<open>option\<close>.
  The \<open>value: any\<close> of a filter is never inspected by the store and is kept as its
  serialised text. The field \<open>id\<close> is called \<open>idV\<close>, \<open>sort\<close> is \<open>sortC\<close> and
  \<open>value\<close> is \<open>valueF\<close>, since the plain names are taken in HOL.
\<close>

record FilterCondition =
  columnId :: string
  operator :: string
  valueF :: string

datatype direction = asc | desc

record SortConfig =
  sortColumnId :: string
  sortDirection :: direction

record TableConfig =
  filters :: "FilterCondition list"
  sortC :: "SortConfig option"
  columns :: "string list"
  columnOrder :: "string list"
  columnWidths :: "(string \<times> int) list"
  pageSize :: int
  grouping :: "string list option"

record SavedView =
  idV :: string
  name :: string
  description :: "string option"
  config :: TableConfig
  originalQuery :: "string option"
  createdAt :: int
  updatedAt :: int
  usageCount :: int
  lastUsed :: int

text \<open>\<open>SavedViewInput = Omit<SavedView, 'id' | 'createdAt' | 'updatedAt' | 'usageCount' | 'lastUsed'>\<close>\<close>

record SavedViewInput =
  inName :: string
  inDescription :: "string option"
  inConfig :: TableConfig
  inOriginalQuery :: "string option"

text \<open>
  \<open>Partial<SavedView>\<close>: every key of \<open>SavedView\<close> may be present or absent.
  \<open>None\<close> is an absent key, \<open>Some x\<close> a key present with value \<open>x\<close>; for the two
  optional fields the value may itself be \<open>undefined\<close> (\<open>Some None\<close>). A required
  field given as \<open>undefined\<close> would produce an object that is no \<open>SavedView\<close> and is
  not modelled.
\<close>

record SavedViewPartial =
  upId :: "string option"
  upName :: "string option"
  upDescription :: "string option option"
  upConfig :: "TableConfig option"
  upOriginalQuery :: "string option option"
  upCreatedAt :: "int option"
  upUpdatedAt :: "int option"
  upUsageCount :: "int option"
  upLastUsed :: "int option"

definition noUpdates :: SavedViewPartial where
  "noUpdates = \<lparr> upId = None, upName = None, upDescription = None, upConfig = None,
     upOriginalQuery = None, upCreatedAt = None, upUpdatedAt = None, upUsageCount = None,
     upLastUsed = None \<rparr>"

section \<open>Store state and environment (stores/saved-views.ts)\<close>

text \<open>
  The three writable stores \<open>savedViews\<close>, \<open>activeViewId\<close> and \<open>activeViewModified\<close>
  are the fields of one state record, passed to every action and returned updated.

  The environment is explicit. \<open>browser\<close> is the module constant
  \<open>typeof window !== 'undefined'\<close>. \<open>Date.now()\<close> is a clock \<open>clk :: nat \<Rightarrow> int\<close>:
  \<open>clk n\<close> is what the \<open>n\<close>-th call of \<open>Date.now()\<close> made by a view action returns,
  and the field \<open>ticks\<close> counts those calls, so that each call an action makes is one
  reading of the model. (The callback of a derived store reads the clock for itself; its
  reading is an argument of the callback.) \<open>crypto.randomUUID()\<close> is called once, by
  \<open>save\<close>, and the string it returns is an argument of \<open>save\<close>: the store uses it as
  it comes.

  The subscriber that writes the collection to \<open>localStorage\<close> catches every error of
  the write and touches none of the three stores; \<open>console\<close> output is not state. Both
  are left out.
\<close>

record store =
  savedViews :: "SavedView list"
  activeViewId :: "string option"
  activeViewModified :: bool
  ticks :: nat

datatype error = Error string

type_synonym clock = "nat \<Rightarrow> int"

text \<open>
  \<open>views.map((v) => v.id === id ? g(v, Date.now()) : v)\<close>: the callback runs on the views
  from left to right and reads the clock once for every view whose id matches.
\<close>

fun mapMatching :: "clock \<Rightarrow> string \<Rightarrow> (SavedView \<Rightarrow> int \<Rightarrow> SavedView) \<Rightarrow> nat \<Rightarrow>
    SavedView list \<Rightarrow> SavedView list" where
  "mapMatching clk i g t [] = []"
| "mapMatching clk i g t (v # vs) =
     (if idV v = i then g v (clk t) # mapMatching clk i g (Suc t) vs
      else v # mapMatching clk i g t vs)"

definition matches :: "string \<Rightarrow> SavedView list \<Rightarrow> nat" where
  "matches i vs = length (filter (\<lambda>v. idV v = i) vs)"

subsection \<open>Derived stores\<close>







text \<open>\<open>$id ? $views.find(...) : null\<close>: the empty string is falsy.\<close>

definition activeView :: "store \<Rightarrow> SavedView option" where
  "activeView s =
     (case activeViewId s of
        None \<Rightarrow> None
      | Some i \<Rightarrow> if i = [] then None else find (\<lambda>v. idV v = i) (savedViews s))"

subsection \<open>View actions\<close>

definition save :: "bool \<Rightarrow> clock \<Rightarrow> string \<Rightarrow> SavedViewInput \<Rightarrow> store \<Rightarrow>
    error + (SavedView \<times> store)" where
  "save browser clk uuid input s =
     (if \<not> browser then Inl (Error ''Cannot save views on server'')
      else
        let newView = \<lparr> idV = uuid, name = inName input, description = inDescription input,
              config = inConfig input, originalQuery = inOriginalQuery input,
              createdAt = clk (ticks s), updatedAt = clk (ticks s + 1), usageCount = 0,
              lastUsed = clk (ticks s + 2) \<rparr>
        in Inr (newView, s\<lparr> savedViews := savedViews s @ [newView], ticks := ticks s + 3 \<rparr>))"

definition load :: "bool \<Rightarrow> clock \<Rightarrow> string \<Rightarrow> store \<Rightarrow> error + (SavedView option \<times> store)" where
  "load browser clk i s =
     (if \<not> browser then Inl (Error ''Cannot load views on server'')
      else
        let views = savedViews s; view = find (\<lambda>v. idV v = i) views
        in case view of
             Some _ \<Rightarrow>
               Inr (view,
                 s\<lparr> savedViews :=
                      mapMatching clk i
                        (\<lambda>v t. v\<lparr> usageCount := usageCount v + 1, lastUsed := t \<rparr>)
                        (ticks s) views,
                    activeViewId := Some i,
                    activeViewModified := False,
                    ticks := ticks s + matches i views \<rparr>)
           | None \<Rightarrow> Inr (view, s))"

text \<open>\<open>{ ...v, ...updates, updatedAt: Date.now() }\<close>: later keys win.\<close>

definition spread :: "SavedView \<Rightarrow> SavedViewPartial \<Rightarrow> SavedView" where
  "spread v updates =
     \<lparr> idV = (case upId updates of None \<Rightarrow> idV v | Some x \<Rightarrow> x),
       name = (case upName updates of None \<Rightarrow> name v | Some x \<Rightarrow> x),
       description = (case upDescription updates of None \<Rightarrow> description v | Some x \<Rightarrow> x),
       config = (case upConfig updates of None \<Rightarrow> config v | Some x \<Rightarrow> x),
       originalQuery = (case upOriginalQuery updates of None \<Rightarrow> originalQuery v | Some x \<Rightarrow> x),
       createdAt = (case upCreatedAt updates of None \<Rightarrow> createdAt v | Some x \<Rightarrow> x),
       updatedAt = (case upUpdatedAt updates of None \<Rightarrow> updatedAt v | Some x \<Rightarrow> x),
       usageCount = (case upUsageCount updates of None \<Rightarrow> usageCount v | Some x \<Rightarrow> x),
       lastUsed = (case upLastUsed updates of None \<Rightarrow> lastUsed v | Some x \<Rightarrow> x) \<rparr>"

definition update :: "bool \<Rightarrow> clock \<Rightarrow> string \<Rightarrow> SavedViewPartial \<Rightarrow> store \<Rightarrow> error + store" where
  "update browser clk i updates s =
     (if \<not> browser then Inl (Error ''Cannot update views on server'')
      else
        let views = savedViews s; view = find (\<lambda>v. idV v = i) views
        in case view of
             Some _ \<Rightarrow>
               Inr (s\<lparr> savedViews :=
                         mapMatching clk i (\<lambda>v t. (spread v updates)\<lparr> updatedAt := t \<rparr>)
                           (ticks s) views,
                       activeViewModified := False,
                       ticks := ticks s + matches i views \<rparr>)
           | None \<Rightarrow> Inr s)"

definition delete :: "bool \<Rightarrow> string \<Rightarrow> store \<Rightarrow> error + store" where
  "delete browser i s =
     (if \<not> browser then Inl (Error ''Cannot delete views on server'')
      else
        let views = savedViews s; view = find (\<lambda>v. idV v = i) views
        in case view of
             Some _ \<Rightarrow>
               (let s1 = s\<lparr> savedViews := filter (\<lambda>v. idV v \<noteq> i) views \<rparr>
                in if activeViewId s1 = Some i
                   then Inr (s1\<lparr> activeViewId := None, activeViewModified := False \<rparr>)
                   else Inr s1)
           | None \<Rightarrow> Inr s)"

definition rename :: "bool \<Rightarrow> clock \<Rightarrow> string \<Rightarrow> string \<Rightarrow> store \<Rightarrow> error + store" where
  "rename browser clk i newName s =
     (if \<not> browser then Inl (Error ''Cannot rename views on server'')
      else
        let views = savedViews s; view = find (\<lambda>v. idV v = i) views
        in case view of
             Some _ \<Rightarrow>
               Inr (s\<lparr> savedViews :=
                         mapMatching clk i (\<lambda>v t. v\<lparr> name := newName, updatedAt := t \<rparr>)
                           (ticks s) views,
                       ticks := ticks s + matches i views \<rparr>)
           | None \<Rightarrow> Inr s)"

definition markModified :: "store \<Rightarrow> store" where
  "markModified s = s\<lparr> activeViewModified := True \<rparr>"

definition clearActive :: "store \<Rightarrow> store" where
  "clearActive s = s\<lparr> activeViewId := None, activeViewModified := False \<rparr>"

definition nameExists :: "bool \<Rightarrow> string \<Rightarrow> string option \<Rightarrow> store \<Rightarrow> bool" where
  "nameExists browser nm excludeId s =
     (if \<not> browser then False
      else list_ex (\<lambda>v. name v = nm \<and> Some (idV v) \<noteq> excludeId) (savedViews s))"

record StorageStats =
  count :: int
  limit :: int
  percentFull :: int

text \<open>
  \<open>Math.round((count / limit) * 100)\<close>, over the reals: \<open>round\<close> is
  \<open>\<lfloor>x + 1/2\<rfloor>\<close>, as \<open>Math.round\<close> is. The exact quotient is the integer
  \<open>2 * count\<close>, and the error of the double-precision division stays far below
  \<open>1/2\<close> for any array length, so both roundings give the same integer.
\<close>

definition getStorageStats :: "bool \<Rightarrow> store \<Rightarrow> StorageStats" where
  "getStorageStats browser s =
     (if \<not> browser then \<lparr> count = 0, limit = 50, percentFull = 0 \<rparr>
      else
        let views = savedViews s; cnt = int (length views); lim = 50
        in \<lparr> count = cnt, limit = lim,
             percentFull = round ((real_of_int cnt / real_of_int lim) * 100) \<rparr>)"

section \<open>Sequences of actions\<close>

text \<open>
  A caller issues the actions one after the other. An action that throws leaves the three
  stores as they were, and the caller goes on with the next one.
\<close>

datatype action =
    Save string SavedViewInput
  | Load string
  | Update string SavedViewPartial
  | Delete string
  | Rename string string

fun perform :: "bool \<Rightarrow> clock \<Rightarrow> action \<Rightarrow> store \<Rightarrow> store" where
  "perform b clk (Save uuid input) s =
     (case save b clk uuid input s of Inl _ \<Rightarrow> s | Inr (_, s') \<Rightarrow> s')"
| "perform b clk (Load i) s =
     (case load b clk i s of Inl _ \<Rightarrow> s | Inr (_, s') \<Rightarrow> s')"
| "perform b clk (Update i updates) s =
     (case update b clk i updates s of Inl _ \<Rightarrow> s | Inr s' \<Rightarrow> s')"
| "perform b clk (Delete i) s =
     (case delete b i s of Inl _ \<Rightarrow> s | Inr s' \<Rightarrow> s')"
| "perform b clk (Rename i newName) s =
     (case rename b clk i newName s of Inl _ \<Rightarrow> s | Inr s' \<Rightarrow> s')"

fun performAll :: "bool \<Rightarrow> clock \<Rightarrow> action list \<Rightarrow> store \<Rightarrow> store" where
  "performAll b clk [] s = s"
| "performAll b clk (a # as) s = performAll b clk as (perform b clk a s)"

text \<open>
  The lifetime of one view is followed by its position in the array. \<open>map\<close> and appending
  keep every position; \<open>filter\<close> moves a surviving view to the number of survivors before
  it, and ends the lifetime of a view it removes.
\<close>

fun successor :: "bool \<Rightarrow> action \<Rightarrow> store \<Rightarrow> nat \<Rightarrow> nat option" where
  "successor b (Delete i) s k =
     (if \<not> b then Some k
      else if idV (savedViews s ! k) = i then None
      else Some (length (filter (\<lambda>v. idV v \<noteq> i) (take k (savedViews s)))))"
| "successor b a s k = Some k"

fun lineage :: "bool \<Rightarrow> clock \<Rightarrow> action list \<Rightarrow> store \<Rightarrow> nat \<Rightarrow> nat option" where
  "lineage b clk [] s k = Some k"
| "lineage b clk (a # as) s k =
     (case successor b a s k of
        None \<Rightarrow> None
      | Some k' \<Rightarrow> lineage b clk as (perform b clk a s) k')"

text \<open>
  A partial that supplies none of the fields the store manages by itself. (A supplied
  \<open>updatedAt\<close> is harmless: \<open>update\<close> overwrites it.)
\<close>

definition contentOnly :: "SavedViewPartial \<Rightarrow> bool" where
  "contentOnly u =
     (upId u = None \<and> upCreatedAt u = None \<and> upUsageCount u = None \<and> upLastUsed u = None)"

fun managedFieldsKept :: "action \<Rightarrow> bool" where
  "managedFieldsKept (Update i u) = contentOnly u"
| "managedFieldsKept a = True"

text \<open>
  No stored timestamp lies after the next reading of the clock, and no view was updated
  before it was created.
\<close>

definition wellTimed :: "clock \<Rightarrow> store \<Rightarrow> bool" where
  "wellTimed clk s =
     list_all (\<lambda>v. createdAt v \<le> updatedAt v \<and> createdAt v \<le> clk (ticks s) \<and>
                 lastUsed v \<le> clk (ticks s)) (savedViews s)"

section \<open>Example values\<close>

text \<open>A clock that advances by one millisecond between any two readings.\<close>

definition tickingClock :: clock where
  "tickingClock n = 1000 + int n"

text \<open>A clock that does not advance during the calls it serves.\<close>

definition steadyClock :: clock where
  "steadyClock n = 1000"

definition emptyConfig :: TableConfig where
  "emptyConfig = \<lparr> filters = [], sortC = None, columns = [], columnOrder = [],
     columnWidths = [], pageSize = 25, grouping = None \<rparr>"

definition alphaInput :: SavedViewInput where
  "alphaInput = \<lparr> inName = ''Alpha'', inDescription = None, inConfig = emptyConfig,
     inOriginalQuery = None \<rparr>"

definition emptyStore :: store where
  "emptyStore = \<lparr> savedViews = [], activeViewId = None, activeViewModified = False, ticks = 0 \<rparr>"

definition viewAt :: "string \<Rightarrow> string \<Rightarrow> int \<Rightarrow> int \<Rightarrow> SavedView" where
  "viewAt i n c t = \<lparr> idV = i, name = n, description = None, config = emptyConfig,
     originalQuery = None, createdAt = t, updatedAt = t, usageCount = c, lastUsed = t \<rparr>"

definition oneViewStore :: store where
  "oneViewStore = emptyStore\<lparr> savedViews := [viewAt ''a'' ''Alpha'' 0 900] \<rparr>"

definition twoViewStore :: store where
  "twoViewStore = \<lparr> savedViews = [viewAt ''a'' ''Alpha'' 0 900, viewAt ''b'' ''Beta'' 2 950],
     activeViewId = Some ''a'', activeViewModified = True, ticks = 0 \<rparr>"


definition fullStore :: store where
  "fullStore = emptyStore\<lparr> savedViews := replicate 50 (viewAt ''a'' ''Alpha'' 0 900) \<rparr>"

definition exampleActions :: "action list" where
  "exampleActions =
     [Load ''b'', Save ''c'' alphaInput, Delete ''a'', Rename ''b'' ''Gamma'',
      Update ''b'' (noUpdates\<lparr> upDescription := Some (Some ''notes'') \<rparr>), Load ''b'']"

definition overwriteManaged :: SavedViewPartial where
  "overwriteManaged = noUpdates\<lparr> upId := Some ''b'', upCreatedAt := Some 5000,
     upUsageCount := Some 0, upLastUsed := Some 0 \<rparr>"

lemmas example_defs = tickingClock_def steadyClock_def emptyConfig_def alphaInput_def
  emptyStore_def viewAt_def oneViewStore_def twoViewStore_def

lemmas action_defs = save_def load_def update_def delete_def rename_def spread_def
  noUpdates_def Let_def

section \<open>Auxiliary facts\<close>

subsection \<open>Mapping over the matching views\<close>

lemma length_mapMatching: "length (mapMatching clk i g t vs) = length vs"
  by (induction vs arbitrary: t) auto

lemma matches_Cons:
  "matches i (v # vs) = (if idV v = i then Suc (matches i vs) else matches i vs)"
  by (simp add: matches_def)

lemma matches_append: "matches i (xs @ ys) = matches i xs + matches i ys"
  by (simp add: matches_def)

lemma nth_mapMatching:
  "k < length vs \<Longrightarrow>
   mapMatching clk i g t vs ! k =
     (if idV (vs ! k) = i then g (vs ! k) (clk (t + matches i (take k vs))) else vs ! k)"
proof (induction vs arbitrary: t k)
  case Nil
  then show ?case by simp
next
  case (Cons v vs)
  show ?case
  proof (cases k)
    case 0
    then show ?thesis by (simp add: matches_def)
  next
    case (Suc j)
    with Cons.prems have "j < length vs" by simp
    from Cons.IH [OF this] Suc show ?thesis
      by (simp add: matches_Cons)
  qed
qed

lemma find_None_ids: "(find (\<lambda>v. idV v = i) vs = None) = (i \<notin> idV ` set vs)"
  by (auto simp: find_None_iff)

lemma find_mapMatching:
  "(\<And>v t. idV (g v t) = idV v) \<Longrightarrow>
   find (\<lambda>v. idV v = i) (mapMatching clk i g t vs) =
     map_option (\<lambda>v. g v (clk t)) (find (\<lambda>v. idV v = i) vs)"
  by (induction vs) auto

lemma mapMatching_no_match: "i \<notin> idV ` set vs \<Longrightarrow> mapMatching clk i g t vs = vs"
  by (induction vs) auto

lemma matches_no_match: "i \<notin> idV ` set vs \<Longrightarrow> matches i vs = 0"
  by (induction vs) (auto simp: matches_Cons, simp add: matches_def)

lemma filter_no_match: "i \<notin> idV ` set vs \<Longrightarrow> filter (\<lambda>v. idV v \<noteq> i) vs = vs"
  by (induction vs) auto

lemma matches_take_less:
  assumes "k < length vs" "idV (vs ! k) = i"
  shows "matches i (take k vs) < matches i vs"
proof -
  have "vs = take k vs @ vs ! k # drop (Suc k) vs"
    using assms(1) by (rule id_take_nth_drop)
  then have "matches i vs = matches i (take k vs) + matches i (vs ! k # drop (Suc k) vs)"
    using matches_append [of i "take k vs" "vs ! k # drop (Suc k) vs"] by simp
  with assms(2) show ?thesis by (simp add: matches_Cons)
qed

lemma in_set_mapMatching:
  assumes "w \<in> set (mapMatching clk i g t vs)"
  shows "(w \<in> set vs \<and> idV w \<noteq> i) \<or>
         (\<exists>v \<in> set vs. \<exists>j < matches i vs. idV v = i \<and> w = g v (clk (t + j)))"
proof -
  from assms obtain k where k: "k < length vs" and w: "w = mapMatching clk i g t vs ! k"
    by (auto simp: in_set_conv_nth length_mapMatching)
  show ?thesis
  proof (cases "idV (vs ! k) = i")
    case True
    with k w have "w = g (vs ! k) (clk (t + matches i (take k vs)))"
      by (simp add: nth_mapMatching)
    moreover from k True have "matches i (take k vs) < matches i vs"
      by (rule matches_take_less)
    moreover from k have "vs ! k \<in> set vs" by simp
    ultimately show ?thesis using True by blast
  next
    case False
    with k w have "w = vs ! k" by (simp add: nth_mapMatching)
    with k False show ?thesis by auto
  qed
qed

lemma nth_filter_position:
  "k < length xs \<Longrightarrow> P (xs ! k) \<Longrightarrow>
   length (filter P (take k xs)) < length (filter P xs) \<and>
   filter P xs ! length (filter P (take k xs)) = xs ! k"
proof -
  assume k: "k < length xs" and p: "P (xs ! k)"
  have split: "xs = take k xs @ xs ! k # drop (Suc k) xs"
    using k by (rule id_take_nth_drop)
  have "filter P xs = filter P (take k xs) @ filter P (xs ! k # drop (Suc k) xs)"
    using arg_cong [OF split, of "filter P"] by simp
  with p have eq: "filter P xs = filter P (take k xs) @ xs ! k # filter P (drop (Suc k) xs)"
    by simp
  have "length (filter P (take k xs)) <
      length (filter P (take k xs) @ xs ! k # filter P (drop (Suc k) xs))"
    by simp
  moreover have "(filter P (take k xs) @ xs ! k # filter P (drop (Suc k) xs)) !
      length (filter P (take k xs)) = xs ! k"
    by (rule nth_append_length)
  ultimately show ?thesis unfolding eq [symmetric] by simp
qed

lemma spread_name: "spread v (noUpdates\<lparr> upName := Some n \<rparr>) = v\<lparr> name := n \<rparr>"
  by (simp add: spread_def noUpdates_def)

subsection \<open>The stable sort\<close>







subsection \<open>One action of a sequence\<close>

lemma perform_Save_views:
  "savedViews (perform b clk (Save uuid input) s) =
     (if b then savedViews s @
        [\<lparr> idV = uuid, name = inName input, description = inDescription input,
           config = inConfig input, originalQuery = inOriginalQuery input,
           createdAt = clk (ticks s), updatedAt = clk (ticks s + 1), usageCount = 0,
           lastUsed = clk (ticks s + 2) \<rparr>]
      else savedViews s)"
  by (simp add: save_def Let_def)

lemma perform_Save_ticks:
  "ticks (perform b clk (Save uuid input) s) = (if b then ticks s + 3 else ticks s)"
  by (simp add: save_def Let_def)

lemma perform_Load_views:
  "savedViews (perform b clk (Load i) s) =
     (if b then mapMatching clk i (\<lambda>v t. v\<lparr> usageCount := usageCount v + 1, lastUsed := t \<rparr>)
        (ticks s) (savedViews s)
      else savedViews s)"
proof (cases "find (\<lambda>v. idV v = i) (savedViews s)")
  case None
  then have nm: "i \<notin> idV ` set (savedViews s)" by (simp add: find_None_ids)
  from None show ?thesis by (simp add: load_def Let_def mapMatching_no_match [OF nm])
next
  case (Some w)
  then show ?thesis by (simp add: load_def Let_def)
qed

lemma perform_Load_ticks:
  "ticks (perform b clk (Load i) s) = (if b then ticks s + matches i (savedViews s) else ticks s)"
proof (cases "find (\<lambda>v. idV v = i) (savedViews s)")
  case None
  then have nm: "i \<notin> idV ` set (savedViews s)" by (simp add: find_None_ids)
  from None show ?thesis by (simp add: load_def Let_def matches_no_match [OF nm])
next
  case (Some w)
  then show ?thesis by (simp add: load_def Let_def)
qed

lemma perform_Update_views:
  "savedViews (perform b clk (Update i u) s) =
     (if b then mapMatching clk i (\<lambda>v t. (spread v u)\<lparr> updatedAt := t \<rparr>) (ticks s) (savedViews s)
      else savedViews s)"
proof (cases "find (\<lambda>v. idV v = i) (savedViews s)")
  case None
  then have nm: "i \<notin> idV ` set (savedViews s)" by (simp add: find_None_ids)
  from None show ?thesis by (simp add: update_def Let_def mapMatching_no_match [OF nm])
next
  case (Some w)
  then show ?thesis by (simp add: update_def Let_def)
qed

lemma perform_Update_ticks:
  "ticks (perform b clk (Update i u) s) = (if b then ticks s + matches i (savedViews s) else ticks s)"
proof (cases "find (\<lambda>v. idV v = i) (savedViews s)")
  case None
  then have nm: "i \<notin> idV ` set (savedViews s)" by (simp add: find_None_ids)
  from None show ?thesis by (simp add: update_def Let_def matches_no_match [OF nm])
next
  case (Some w)
  then show ?thesis by (simp add: update_def Let_def)
qed

lemma perform_Rename_views:
  "savedViews (perform b clk (Rename i n) s) =
     (if b then mapMatching clk i (\<lambda>v t. v\<lparr> name := n, updatedAt := t \<rparr>) (ticks s) (savedViews s)
      else savedViews s)"
proof (cases "find (\<lambda>v. idV v = i) (savedViews s)")
  case None
  then have nm: "i \<notin> idV ` set (savedViews s)" by (simp add: find_None_ids)
  from None show ?thesis by (simp add: rename_def Let_def mapMatching_no_match [OF nm])
next
  case (Some w)
  then show ?thesis by (simp add: rename_def Let_def)
qed

lemma perform_Rename_ticks:
  "ticks (perform b clk (Rename i n) s) = (if b then ticks s + matches i (savedViews s) else ticks s)"
proof (cases "find (\<lambda>v. idV v = i) (savedViews s)")
  case None
  then have nm: "i \<notin> idV ` set (savedViews s)" by (simp add: find_None_ids)
  from None show ?thesis by (simp add: rename_def Let_def matches_no_match [OF nm])
next
  case (Some w)
  then show ?thesis by (simp add: rename_def Let_def)
qed

lemma perform_Delete_views:
  "savedViews (perform b clk (Delete i) s) =
     (if b then filter (\<lambda>v. idV v \<noteq> i) (savedViews s) else savedViews s)"
proof (cases "find (\<lambda>v. idV v = i) (savedViews s)")
  case None
  then have nm: "i \<notin> idV ` set (savedViews s)" by (simp add: find_None_ids)
  from None show ?thesis by (simp add: delete_def Let_def filter_no_match [OF nm])
next
  case (Some w)
  then show ?thesis by (simp add: delete_def Let_def)
qed

lemma perform_Delete_ticks: "ticks (perform b clk (Delete i) s) = ticks s"
  by (cases "find (\<lambda>v. idV v = i) (savedViews s)")
    (simp_all add: delete_def Let_def)

lemmas perform_views = perform_Save_views perform_Load_views perform_Update_views
  perform_Rename_views perform_Delete_views

lemmas perform_ticks = perform_Save_ticks perform_Load_ticks perform_Update_ticks
  perform_Rename_ticks perform_Delete_ticks

text \<open>One action, followed at one position.\<close>

lemma perform_successor:
  assumes kept: "managedFieldsKept a"
    and k: "k < length (savedViews s)"
    and succ: "successor b a s k = Some k'"
  shows "k' < length (savedViews (perform b clk a s)) \<and>
    idV (savedViews (perform b clk a s) ! k') = idV (savedViews s ! k) \<and>
    createdAt (savedViews (perform b clk a s) ! k') = createdAt (savedViews s ! k) \<and>
    usageCount (savedViews s ! k) \<le> usageCount (savedViews (perform b clk a s) ! k') \<and>
    (lastUsed (savedViews (perform b clk a s) ! k') = lastUsed (savedViews s ! k) \<or>
     (\<exists>j. lastUsed (savedViews (perform b clk a s) ! k') = clk (ticks s + j)))"
proof (cases a)
  case (Save uuid input)
  with k succ show ?thesis
    by (simp add: perform_Save_views nth_append del: perform.simps)
next
  case (Load i)
  with k succ show ?thesis
    by (auto simp add: perform_Load_views nth_mapMatching length_mapMatching simp del: perform.simps)
next
  case (Update i u)
  with k succ kept show ?thesis
    by (simp add: perform_Update_views nth_mapMatching length_mapMatching spread_def
        contentOnly_def del: perform.simps)
next
  case (Delete i)
  show ?thesis
  proof (cases b)
    case False
    with Delete k succ show ?thesis
      by (simp add: perform_Delete_views del: perform.simps)
  next
    case True
    with Delete succ have ne: "idV (savedViews s ! k) \<noteq> i"
      and k': "k' = length (filter (\<lambda>v. idV v \<noteq> i) (take k (savedViews s)))"
      by (auto split: if_splits)
    from nth_filter_position [of k "savedViews s" "\<lambda>v. idV v \<noteq> i", OF k ne] k' Delete True
    show ?thesis
      by (simp add: perform_Delete_views del: perform.simps)
  qed
next
  case (Rename i n)
  with k succ show ?thesis
    by (simp add: perform_Rename_views nth_mapMatching length_mapMatching del: perform.simps)
qed

subsection \<open>Timestamps under a clock that never runs backwards\<close>

lemma wellTimed_iff:
  "wellTimed clk s =
     (\<forall>v \<in> set (savedViews s). createdAt v \<le> updatedAt v \<and> createdAt v \<le> clk (ticks s) \<and>
        lastUsed v \<le> clk (ticks s))"
  by (simp add: wellTimed_def list_all_iff)

lemma monoD_clock: "mono (clk :: clock) \<Longrightarrow> x \<le> clk t \<Longrightarrow> t \<le> t' \<Longrightarrow> x \<le> clk t'"
  by (meson monoD order_trans)

lemma mono_tickingClock: "mono tickingClock"
  by (simp add: mono_def tickingClock_def)

lemma wellTimed_mapMatching:
  assumes m: "mono clk" and wt: "wellTimed clk s"
    and g: "\<And>v j. createdAt (g v (clk (ticks s + j))) = createdAt v \<and>
        (updatedAt (g v (clk (ticks s + j))) = updatedAt v \<or>
         updatedAt (g v (clk (ticks s + j))) = clk (ticks s + j)) \<and>
        (lastUsed (g v (clk (ticks s + j))) = lastUsed v \<or>
         lastUsed (g v (clk (ticks s + j))) = clk (ticks s + j))"
    and vs: "savedViews s' = mapMatching clk i g (ticks s) (savedViews s)"
    and ts: "ticks s' = ticks s + matches i (savedViews s)"
  shows "wellTimed clk s'"
  unfolding wellTimed_iff
proof
  fix w assume "w \<in> set (savedViews s')"
  with vs have "w \<in> set (mapMatching clk i g (ticks s) (savedViews s))" by simp
  from in_set_mapMatching [OF this]
  consider (same) "w \<in> set (savedViews s)"
    | (changed) v j where "v \<in> set (savedViews s)" "j < matches i (savedViews s)"
        "w = g v (clk (ticks s + j))"
    by blast
  then show "createdAt w \<le> updatedAt w \<and> createdAt w \<le> clk (ticks s') \<and>
      lastUsed w \<le> clk (ticks s')"
  proof cases
    case same
    with wt have "createdAt w \<le> updatedAt w" "createdAt w \<le> clk (ticks s)"
      "lastUsed w \<le> clk (ticks s)"
      by (auto simp: wellTimed_iff)
    with m ts show ?thesis
      by (auto intro: monoD_clock)
  next
    case changed
    with wt have old: "createdAt v \<le> updatedAt v" "createdAt v \<le> clk (ticks s)"
      "lastUsed v \<le> clk (ticks s)"
      by (auto simp: wellTimed_iff)
    have le1: "clk (ticks s) \<le> clk (ticks s + j)" using m by (simp add: monoD)
    have le2: "clk (ticks s + j) \<le> clk (ticks s')" using m ts changed(2) by (simp add: monoD)
    from g [of v j] changed(3) old le1 le2 show ?thesis
      by auto
  qed
qed

lemma perform_wellTimed:
  assumes kept: "managedFieldsKept a" and m: "mono clk" and wt: "wellTimed clk s"
  shows "wellTimed clk (perform b clk a s)"
proof (cases b)
  case False
  have "savedViews (perform b clk a s) = savedViews s \<and> ticks (perform b clk a s) = ticks s"
    using False by (cases a) (simp_all only: perform_views perform_ticks if_False simp_thms)
  with wt show ?thesis by (simp add: wellTimed_iff)
next
  case True
  show ?thesis
  proof (cases a)
    case (Save uuid input)
    have "clk (ticks s) \<le> clk (ticks s + 1)" "clk (ticks s) \<le> clk (ticks s + 3)"
      "clk (ticks s + 2) \<le> clk (ticks s + 3)"
      using m by (simp_all add: monoD)
    with wt True Save show ?thesis
      by (auto simp add: wellTimed_iff perform_Save_views perform_Save_ticks
          simp del: perform.simps)
  next
    case (Load i)
    have v: "savedViews (perform b clk a s) =
        mapMatching clk i (\<lambda>v t. v\<lparr> usageCount := usageCount v + 1, lastUsed := t \<rparr>)
          (ticks s) (savedViews s)"
      using True Load by (simp add: perform_Load_views del: perform.simps)
    have t: "ticks (perform b clk a s) = ticks s + matches i (savedViews s)"
      using True Load by (simp add: perform_Load_ticks del: perform.simps)
    show ?thesis
      by (rule wellTimed_mapMatching [OF m wt _ v t]) simp
  next
    case (Update i u)
    with kept have c: "contentOnly u" by simp
    have v: "savedViews (perform b clk a s) =
        mapMatching clk i (\<lambda>v t. (spread v u)\<lparr> updatedAt := t \<rparr>) (ticks s) (savedViews s)"
      using True Update by (simp add: perform_Update_views del: perform.simps)
    have t: "ticks (perform b clk a s) = ticks s + matches i (savedViews s)"
      using True Update by (simp add: perform_Update_ticks del: perform.simps)
    show ?thesis
      by (rule wellTimed_mapMatching [OF m wt _ v t])
        (simp add: spread_def c [unfolded contentOnly_def])
  next
    case (Delete i)
    with wt True show ?thesis
      by (auto simp add: wellTimed_iff perform_Delete_views perform_Delete_ticks
          simp del: perform.simps)
  next
    case (Rename i n)
    have v: "savedViews (perform b clk a s) =
        mapMatching clk i (\<lambda>v t. v\<lparr> name := n, updatedAt := t \<rparr>) (ticks s) (savedViews s)"
      using True Rename by (simp add: perform_Rename_views del: perform.simps)
    have t: "ticks (perform b clk a s) = ticks s + matches i (savedViews s)"
      using True Rename by (simp add: perform_Rename_ticks del: perform.simps)
    show ?thesis
      by (rule wellTimed_mapMatching [OF m wt _ v t]) simp
  qed
qed

subsection \<open>A whole sequence, followed at one position\<close>

lemma lineage_frame:
  assumes "list_all managedFieldsKept as" "k < length (savedViews s)"
    "lineage b clk as s k = Some k'"
  shows "k' < length (savedViews (performAll b clk as s)) \<and>
    idV (savedViews (performAll b clk as s) ! k') = idV (savedViews s ! k) \<and>
    createdAt (savedViews (performAll b clk as s) ! k') = createdAt (savedViews s ! k) \<and>
    usageCount (savedViews s ! k) \<le> usageCount (savedViews (performAll b clk as s) ! k')"
  using assms
proof (induction as arbitrary: s k)
  case Nil
  then show ?case by simp
next
  case (Cons a as)
  from Cons.prems(3) obtain k1 where s1: "successor b a s k = Some k1"
    and rest: "lineage b clk as (perform b clk a s) k1 = Some k'"
    by (auto split: option.splits)
  from Cons.prems(1) have kept: "managedFieldsKept a" and kepts: "list_all managedFieldsKept as"
    by simp_all
  note step = perform_successor [OF kept Cons.prems(2) s1, of clk]
  from step have k1: "k1 < length (savedViews (perform b clk a s))" by blast
  note tail = Cons.IH [OF kepts k1 rest]
  from step tail show ?case
    by (simp del: perform.simps)
qed

lemma lineage_time:
  assumes "list_all managedFieldsKept as" "k < length (savedViews s)"
    "lineage b clk as s k = Some k'" "mono clk" "wellTimed clk s"
  shows "lastUsed (savedViews s ! k) \<le> lastUsed (savedViews (performAll b clk as s) ! k') \<and>
    wellTimed clk (performAll b clk as s)"
  using assms
proof (induction as arbitrary: s k)
  case Nil
  then show ?case by simp
next
  case (Cons a as)
  from Cons.prems(3) obtain k1 where s1: "successor b a s k = Some k1"
    and rest: "lineage b clk as (perform b clk a s) k1 = Some k'"
    by (auto split: option.splits)
  from Cons.prems(1) have kept: "managedFieldsKept a" and kepts: "list_all managedFieldsKept as"
    by simp_all
  note step = perform_successor [OF kept Cons.prems(2) s1, of clk]
  from step have k1: "k1 < length (savedViews (perform b clk a s))" by blast
  have wt1: "wellTimed clk (perform b clk a s)"
    using kept Cons.prems(4,5) by (rule perform_wellTimed)
  note tail = Cons.IH [OF kepts k1 rest Cons.prems(4) wt1]
  from Cons.prems(2,5) have "lastUsed (savedViews s ! k) \<le> clk (ticks s)"
    by (simp add: wellTimed_iff)
  then have "lastUsed (savedViews s ! k) \<le> clk (ticks s + j)" for j
    using monoD_clock [OF Cons.prems(4), of "lastUsed (savedViews s ! k)" "ticks s" "ticks s + j"]
    by simp
  with step have "lastUsed (savedViews s ! k) \<le> lastUsed (savedViews (perform b clk a s) ! k1)"
    by auto
  with tail show ?case
    by (simp del: perform.simps)
qed

section \<open>The claims\<close>

text \<open>
  Every action starts with \<open>if (!browser) throw\<close>. The effects below are those of an
  action that runs in a browser; outside one the collection is empty unless a caller
  filled it by hand, and each action returns its error.
\<close>

subsection \<open>C1: update\<close>

text \<open>
  Claim C1, as amended. For every view with the given id, \<open>update(id, partial)\<close> replaces
  each field the partial supplies, \<open>id\<close> and \<open>createdAt\<close> among them, and keeps each field
  it does not supply; \<open>updatedAt\<close> is then set to a reading of the clock taken for that
  view, whatever the partial says. Views with another id are unchanged, the active id is
  unchanged and \<open>activeViewModified\<close> is false afterwards. In particular \<open>id\<close> and
  \<open>createdAt\<close> are unchanged exactly when the partial does not supply them.
\<close>

theorem update_merges_fields:
  "browser \<Longrightarrow> i \<in> idV ` set (savedViews s) \<Longrightarrow>
   \<exists>s'. update browser clk i updates s = Inr s' \<and>
     length (savedViews s') = length (savedViews s) \<and>
     (\<forall>k < length (savedViews s).
        if idV (savedViews s ! k) = i
        then savedViews s' ! k =
               (spread (savedViews s ! k) updates)
                 \<lparr> updatedAt := clk (ticks s + matches i (take k (savedViews s))) \<rparr> \<and>
             idV (savedViews s' ! k) =
               (case upId updates of None \<Rightarrow> idV (savedViews s ! k) | Some x \<Rightarrow> x) \<and>
             createdAt (savedViews s' ! k) =
               (case upCreatedAt updates of None \<Rightarrow> createdAt (savedViews s ! k) | Some x \<Rightarrow> x)
        else savedViews s' ! k = savedViews s ! k) \<and>
     activeViewId s' = activeViewId s \<and> activeViewModified s' = False"
proof -
  assume b: browser and mem: "i \<in> idV ` set (savedViews s)"
  then obtain w where f: "find (\<lambda>v. idV v = i) (savedViews s) = Some w"
    using find_None_ids [of i "savedViews s"] by auto
  from b f show ?thesis
    by (simp add: update_def Let_def length_mapMatching nth_mapMatching spread_def)
qed

text \<open>
  The amended C1 at work: a partial with a description only changes the description and
  \<open>updatedAt\<close> of view \<open>b\<close>, and clears the modified flag.
\<close>

theorem update_merges_fields_witness:
  "True \<and> ''b'' \<in> idV ` set (savedViews twoViewStore) \<and>
   update True tickingClock ''b'' (noUpdates\<lparr> upDescription := Some (Some ''notes'') \<rparr>) twoViewStore =
     Inr (twoViewStore\<lparr> savedViews := [viewAt ''a'' ''Alpha'' 0 900,
              (viewAt ''b'' ''Beta'' 2 950)\<lparr> description := Some ''notes'', updatedAt := 1000 \<rparr>],
            activeViewModified := False, ticks := 1 \<rparr>)"
  using update_merges_fields [of True "''b''" twoViewStore tickingClock
      "noUpdates\<lparr> upDescription := Some (Some ''notes'') \<rparr>"]
  by (simp add: example_defs update_def matches_def spread_def noUpdates_def)

text \<open>
  C1 as stated fails: a partial that supplies \<open>id\<close> and \<open>createdAt\<close> overwrites both.
  The stored view had id \<open>a\<close> and was created at 900; after the update it has id \<open>b\<close> and
  creation time 5.
\<close>

theorem update_overwrites_id_counterexample:
  "update True tickingClock ''a'' (noUpdates\<lparr> upId := Some ''b'', upCreatedAt := Some 5 \<rparr>) oneViewStore =
     Inr \<lparr> savedViews = [(viewAt ''b'' ''Alpha'' 0 900)\<lparr> createdAt := 5, updatedAt := 1000 \<rparr>],
           activeViewId = None, activeViewModified = False, ticks = 1 \<rparr> \<and>
   map idV (savedViews oneViewStore) = [''a''] \<and>
   map createdAt (savedViews oneViewStore) = [900]"
  by (simp add: update_def Let_def spread_def noUpdates_def oneViewStore_def
      emptyStore_def viewAt_def tickingClock_def matches_def)

subsection \<open>C2: rename and update\<close>

text \<open>
  Claim C2, as amended. From the same state and with the same clock,
  \<open>rename(id, newName)\<close> and \<open>update(id, { name: newName })\<close> produce the same collection
  and the same active id, and read the clock equally often. They differ in
  \<open>activeViewModified\<close>: \<open>rename\<close> leaves it as it was, \<open>update\<close> sets it to false when
  the id is present. Outside a browser both fail.
\<close>

theorem rename_agrees_with_update:
  "(browser \<longrightarrow>
      (\<exists>sR sU. rename browser clk i newName s = Inr sR \<and>
         update browser clk i (noUpdates\<lparr> upName := Some newName \<rparr>) s = Inr sU \<and>
         savedViews sR = savedViews sU \<and>
         activeViewId sR = activeViewId sU \<and> ticks sR = ticks sU \<and>
         activeViewModified sR = activeViewModified s \<and>
         activeViewModified sU = (i \<notin> idV ` set (savedViews s) \<and> activeViewModified s))) \<and>
   (\<not> browser \<longrightarrow>
      isl (rename browser clk i newName s) \<and>
      isl (update browser clk i (noUpdates\<lparr> upName := Some newName \<rparr>) s))"
proof (cases browser)
  case False
  then show ?thesis by (simp add: rename_def update_def)
next
  case b: True
  show ?thesis
  proof (cases "find (\<lambda>v. idV v = i) (savedViews s)")
    case None
    then have "i \<notin> idV ` set (savedViews s)" by (simp add: find_None_ids)
    with None b show ?thesis by (simp add: rename_def update_def)
  next
    case (Some w)
    then have "i \<in> idV ` set (savedViews s)" using find_None_ids [of i "savedViews s"] by simp
    with Some b show ?thesis by (simp add: rename_def update_def Let_def spread_name)
  qed
qed

text \<open>The amended C2 at work, on a store whose modified flag is set.\<close>

theorem rename_agrees_with_update_witness:
  "isl (rename False tickingClock ''b'' ''Gamma'' twoViewStore) \<and>
   isl (update False tickingClock ''b'' (noUpdates\<lparr> upName := Some ''Gamma'' \<rparr>) twoViewStore) \<and>
   (\<exists>sR sU. rename True tickingClock ''b'' ''Gamma'' twoViewStore = Inr sR \<and>
      update True tickingClock ''b'' (noUpdates\<lparr> upName := Some ''Gamma'' \<rparr>) twoViewStore = Inr sU \<and>
      savedViews sR = savedViews sU \<and> activeViewId sR = activeViewId sU \<and>
      activeViewModified sR \<and> \<not> activeViewModified sU)"
  using rename_agrees_with_update [of True tickingClock "''b''" "''Gamma''" twoViewStore]
    rename_agrees_with_update [of False tickingClock "''b''" "''Gamma''" twoViewStore]
  by (simp add: example_defs rename_def update_def Let_def spread_name)

text \<open>
  C2 as stated fails: with the modified flag set, \<open>rename\<close> keeps it and \<open>update\<close> clears
  it, so the resulting states differ in \<open>activeViewModified\<close>.
\<close>

theorem rename_differs_from_update_counterexample:
  "rename True tickingClock ''a'' ''Beta'' (markModified oneViewStore) =
     Inr \<lparr> savedViews = [(viewAt ''a'' ''Beta'' 0 900)\<lparr> updatedAt := 1000 \<rparr>],
           activeViewId = None, activeViewModified = True, ticks = 1 \<rparr> \<and>
   update True tickingClock ''a'' (noUpdates\<lparr> upName := Some ''Beta'' \<rparr>) (markModified oneViewStore) =
     Inr \<lparr> savedViews = [(viewAt ''a'' ''Beta'' 0 900)\<lparr> updatedAt := 1000 \<rparr>],
           activeViewId = None, activeViewModified = False, ticks = 1 \<rparr>"
  by (simp add: rename_def update_def Let_def spread_name markModified_def oneViewStore_def
      emptyStore_def viewAt_def tickingClock_def matches_def)

subsection \<open>C3: invariants over a view's lifetime\<close>

text \<open>
  Claim C3, as amended. Take any sequence of save, load, update, rename and delete in
  which no update supplies \<open>id\<close>, \<open>createdAt\<close>, \<open>usageCount\<close> or \<open>lastUsed\<close>, and follow
  a view of the collection for as long as it is not deleted. Its \<open>id\<close> never changes and
  its \<open>usageCount\<close> never decreases. If moreover the clock never runs backwards and no
  stored timestamp lies after the clock at the start (with \<open>createdAt \<le> updatedAt\<close> for
  the stored views), then its \<open>lastUsed\<close> never decreases and \<open>createdAt \<le> updatedAt\<close>
  holds for every view of the resulting collection, the newly saved ones included.
\<close>

theorem lifetime_invariants:
  assumes "list_all managedFieldsKept as" "k < length (savedViews s)"
    "lineage b clk as s k = Some k'"
  shows "k' < length (savedViews (performAll b clk as s)) \<and>
    idV (savedViews (performAll b clk as s) ! k') = idV (savedViews s ! k) \<and>
    usageCount (savedViews s ! k) \<le> usageCount (savedViews (performAll b clk as s) ! k') \<and>
    (mono clk \<and> wellTimed clk s \<longrightarrow>
       lastUsed (savedViews s ! k) \<le> lastUsed (savedViews (performAll b clk as s) ! k') \<and>
       list_all (\<lambda>v. createdAt v \<le> updatedAt v) (savedViews (performAll b clk as s)) \<and>
       wellTimed clk (performAll b clk as s))"
  using lineage_frame [OF assms] lineage_time [OF assms]
  by (auto simp: wellTimed_iff list_all_iff)

text \<open>
  The amended C3 at work: view \<open>b\<close>, second of two, is loaded, survives the deletion of
  view \<open>a\<close> (moving to the front), is renamed, updated and loaded again.
\<close>

theorem lifetime_invariants_witness:
  "list_all managedFieldsKept exampleActions \<and>
   1 < length (savedViews twoViewStore) \<and>
   lineage True tickingClock exampleActions twoViewStore 1 = Some 0 \<and>
   mono tickingClock \<and> wellTimed tickingClock twoViewStore \<and>
   savedViews twoViewStore ! 1 = viewAt ''b'' ''Beta'' 2 950 \<and>
   savedViews (performAll True tickingClock exampleActions twoViewStore) =
     [(viewAt ''b'' ''Gamma'' 4 950)\<lparr> description := Some ''notes'', updatedAt := 1005,
         lastUsed := 1006 \<rparr>,
      (viewAt ''c'' ''Alpha'' 0 1001)\<lparr> updatedAt := 1002, lastUsed := 1003 \<rparr>] \<and>
   wellTimed tickingClock (performAll True tickingClock exampleActions twoViewStore)"
proof -
  have kept: "list_all managedFieldsKept exampleActions"
    by (simp add: exampleActions_def contentOnly_def noUpdates_def)
  have k: "1 < length (savedViews twoViewStore)"
    by (simp add: twoViewStore_def)
  have lin: "lineage True tickingClock exampleActions twoViewStore 1 = Some 0"
    by (simp add: exampleActions_def example_defs action_defs matches_def)
  have wt: "wellTimed tickingClock twoViewStore"
    by (simp add: wellTimed_def example_defs)
  have run: "savedViews (performAll True tickingClock exampleActions twoViewStore) =
     [(viewAt ''b'' ''Gamma'' 4 950)\<lparr> description := Some ''notes'', updatedAt := 1005,
         lastUsed := 1006 \<rparr>,
      (viewAt ''c'' ''Alpha'' 0 1001)\<lparr> updatedAt := 1002, lastUsed := 1003 \<rparr>]"
    by (simp add: exampleActions_def example_defs action_defs matches_def)
  have v: "savedViews twoViewStore ! 1 = viewAt ''b'' ''Beta'' 2 950"
    by (simp add: twoViewStore_def)
  from lifetime_invariants [OF kept k lin] mono_tickingClock wt
  have "wellTimed tickingClock (performAll True tickingClock exampleActions twoViewStore)"
    by blast
  with kept k lin mono_tickingClock wt run v show ?thesis by blast
qed

text \<open>
  C3 as stated fails. A view is saved and loaded once, then updated with a partial that
  supplies the managed fields: the same view (still at position 0) changes its id from
  \<open>a\<close> to \<open>b\<close>, its \<open>usageCount\<close> drops from 1 to 0, its \<open>lastUsed\<close> drops from 1003
  to 0, and its \<open>createdAt\<close> 5000 exceeds its \<open>updatedAt\<close> 1004.
\<close>

theorem lifetime_invariants_counterexample:
  "savedViews (performAll True tickingClock [Save ''a'' alphaInput, Load ''a''] emptyStore) =
     [(viewAt ''a'' ''Alpha'' 1 1000)\<lparr> updatedAt := 1001, lastUsed := 1003 \<rparr>] \<and>
   lineage True tickingClock [Update ''a'' overwriteManaged]
     (performAll True tickingClock [Save ''a'' alphaInput, Load ''a''] emptyStore) 0 = Some 0 \<and>
   savedViews (performAll True tickingClock [Update ''a'' overwriteManaged]
     (performAll True tickingClock [Save ''a'' alphaInput, Load ''a''] emptyStore)) =
     [(viewAt ''b'' ''Alpha'' 0 5000)\<lparr> updatedAt := 1004, lastUsed := 0 \<rparr>]"
  by (simp add: example_defs action_defs matches_def overwriteManaged_def)

text \<open>
  The condition on the clock cannot be dropped either: \<open>Date.now()\<close> follows the system
  time, which can be set back. If it is set back by a minute between the first two
  readings of a \<open>save\<close>, the new view is created after it was last updated.
\<close>

lemma save_under_adjusted_clock:
  "save True (\<lambda>n. if n = 0 then 61000 else 1000 + int n) ''a'' alphaInput emptyStore =
     Inr ((viewAt ''a'' ''Alpha'' 0 61000)\<lparr> updatedAt := 1001, lastUsed := 1002 \<rparr>,
          emptyStore\<lparr> savedViews :=
              [(viewAt ''a'' ''Alpha'' 0 61000)\<lparr> updatedAt := 1001, lastUsed := 1002 \<rparr>],
            ticks := 3 \<rparr>)"
  by (simp add: example_defs save_def Let_def)

subsection \<open>C4: what save creates\<close>




subsection \<open>C5: when save fails\<close>

text \<open>
  Claim C5. \<open>save(input)\<close> fails exactly when it does not run in a browser. In a browser
  it succeeds for every collection and every input, whatever the number of views already
  stored and whatever their names: the collection grows by one and the new view carries
  the name given.
\<close>

theorem save_fails_only_on_server:
  "isl (save browser clk uuid input s) = (\<not> browser) \<and>
   (browser \<longrightarrow>
      (\<exists>v s'. save browser clk uuid input s = Inr (v, s') \<and>
         length (savedViews s') = Suc (length (savedViews s)) \<and> name v = inName input))"
  by (simp add: save_def Let_def)

text \<open>
  C5 at work: the store holds 50 views, all named \<open>Alpha\<close>; a 51st view named \<open>Alpha\<close>
  is accepted.
\<close>

theorem save_fails_only_on_server_witness:
  "length (savedViews fullStore) = 50 \<and>
   list_all (\<lambda>v. name v = inName alphaInput) (savedViews fullStore) \<and>
   \<not> isl (save True tickingClock ''u51'' alphaInput fullStore) \<and>
   (\<exists>v s'. save True tickingClock ''u51'' alphaInput fullStore = Inr (v, s') \<and>
      length (savedViews s') = 51 \<and> name v = ''Alpha'')"
proof -
  have "length (savedViews fullStore) = 50"
    by (simp add: fullStore_def)
  moreover have "list_all (\<lambda>v. name v = inName alphaInput) (savedViews fullStore)"
    by (simp add: fullStore_def list_all_iff viewAt_def alphaInput_def)
  moreover have "inName alphaInput = ''Alpha''"
    by (simp add: alphaInput_def)
  ultimately show ?thesis
    using save_fails_only_on_server [of True tickingClock "''u51''" alphaInput fullStore]
    by auto
qed

subsection \<open>C6: load\<close>

text \<open>
  Claim C6. When the id is present, \<open>load(id)\<close> adds exactly 1 to the \<open>usageCount\<close> of
  every view with that id and sets its \<open>lastUsed\<close> to the clock reading taken for it
  (the first reading of the call for the first such view), leaves every view with another
  id unchanged, sets \<open>activeViewId\<close> to the id and \<open>activeViewModified\<close> to false. When
  the id is absent, the state is unchanged and the result is \<open>undefined\<close>.
\<close>

theorem load_updates_usage:
  "browser \<Longrightarrow>
   (i \<in> idV ` set (savedViews s) \<longrightarrow>
      (\<exists>r s'. load browser clk i s = Inr (Some r, s') \<and>
         length (savedViews s') = length (savedViews s) \<and>
         (\<forall>k < length (savedViews s).
            savedViews s' ! k =
              (if idV (savedViews s ! k) = i
               then (savedViews s ! k)\<lparr> usageCount := usageCount (savedViews s ! k) + 1,
                      lastUsed := clk (ticks s + matches i (take k (savedViews s))) \<rparr>
               else savedViews s ! k)) \<and>
         activeViewId s' = Some i \<and> activeViewModified s' = False)) \<and>
   (i \<notin> idV ` set (savedViews s) \<longrightarrow> load browser clk i s = Inr (None, s))"
  by (auto simp: load_def Let_def find_None_ids [symmetric] length_mapMatching nth_mapMatching
      split: option.splits)

text \<open>C6 at work: loading view \<open>b\<close>, and loading an id that is not there.\<close>

theorem load_updates_usage_witness:
  "True \<and> ''b'' \<in> idV ` set (savedViews twoViewStore) \<and>
   load True tickingClock ''b'' twoViewStore =
     Inr (Some (viewAt ''b'' ''Beta'' 2 950),
          twoViewStore\<lparr> savedViews := [viewAt ''a'' ''Alpha'' 0 900,
              (viewAt ''b'' ''Beta'' 2 950)\<lparr> usageCount := 3, lastUsed := 1000 \<rparr>],
            activeViewId := Some ''b'', activeViewModified := False, ticks := 1 \<rparr>) \<and>
   ''zz'' \<notin> idV ` set (savedViews twoViewStore) \<and>
   load True tickingClock ''zz'' twoViewStore = Inr (None, twoViewStore)"
  using load_updates_usage [of True "''b''" twoViewStore tickingClock]
    load_updates_usage [of True "''zz''" twoViewStore tickingClock]
  by (simp add: example_defs load_def matches_def)

subsection \<open>C7: delete\<close>

text \<open>
  Claim C7. Deleting the active view removes every view with that id and sets
  \<open>activeViewId\<close> to none and \<open>activeViewModified\<close> to false. Deleting an existing view
  that is not the active one removes it and leaves \<open>activeViewId\<close> and
  \<open>activeViewModified\<close> as they were. Deleting an id that is not in the collection leaves
  the whole state unchanged.
\<close>

theorem delete_clears_active:
  "browser \<Longrightarrow>
   (i \<in> idV ` set (savedViews s) \<and> activeViewId s = Some i \<longrightarrow>
      (\<exists>s'. delete browser i s = Inr s' \<and>
         savedViews s' = filter (\<lambda>v. idV v \<noteq> i) (savedViews s) \<and>
         i \<notin> idV ` set (savedViews s') \<and>
         activeViewId s' = None \<and> activeViewModified s' = False)) \<and>
   (i \<in> idV ` set (savedViews s) \<and> activeViewId s \<noteq> Some i \<longrightarrow>
      (\<exists>s'. delete browser i s = Inr s' \<and>
         savedViews s' = filter (\<lambda>v. idV v \<noteq> i) (savedViews s) \<and>
         i \<notin> idV ` set (savedViews s') \<and>
         activeViewId s' = activeViewId s \<and> activeViewModified s' = activeViewModified s)) \<and>
   (i \<notin> idV ` set (savedViews s) \<longrightarrow> delete browser i s = Inr s)"
proof -
  assume b: browser
  show ?thesis
  proof (cases "find (\<lambda>v. idV v = i) (savedViews s)")
    case None
    then have "i \<notin> idV ` set (savedViews s)" by (simp add: find_None_ids)
    with None b show ?thesis by (simp add: delete_def)
  next
    case (Some w)
    then have "i \<in> idV ` set (savedViews s)" using find_None_ids [of i "savedViews s"] by simp
    with Some b show ?thesis by (auto simp: delete_def Let_def)
  qed
qed

text \<open>C7 at work: the active view, a view that is not active, and an unknown id.\<close>

theorem delete_clears_active_witness:
  "True \<and>
   ''a'' \<in> idV ` set (savedViews twoViewStore) \<and> activeViewId twoViewStore = Some ''a'' \<and>
   delete True ''a'' twoViewStore =
     Inr (twoViewStore\<lparr> savedViews := [viewAt ''b'' ''Beta'' 2 950], activeViewId := None,
            activeViewModified := False \<rparr>) \<and>
   ''b'' \<in> idV ` set (savedViews twoViewStore) \<and> activeViewId twoViewStore \<noteq> Some ''b'' \<and>
   delete True ''b'' twoViewStore =
     Inr (twoViewStore\<lparr> savedViews := [viewAt ''a'' ''Alpha'' 0 900] \<rparr>) \<and>
   ''zz'' \<notin> idV ` set (savedViews twoViewStore) \<and>
   delete True ''zz'' twoViewStore = Inr twoViewStore"
  using delete_clears_active [of True "''a''" twoViewStore]
    delete_clears_active [of True "''b''" twoViewStore]
    delete_clears_active [of True "''zz''" twoViewStore]
  by (simp add: example_defs delete_def)

subsection \<open>C8: recent views\<close>




subsection \<open>C9: storage statistics\<close>

text \<open>
  Claim C9. In a browser, \<open>getStorageStats\<close> returns \<open>count\<close> equal to the number of
  views, \<open>limit\<close> equal to 50 and \<open>percentFull\<close> equal to
  \<open>round (100 * count / limit)\<close>. Outside a browser it returns the defaults: \<open>count\<close> 0
  and \<open>percentFull\<close> 0, with \<open>limit\<close> still the constant 50.
\<close>

theorem getStorageStats_values:
  "(browser \<longrightarrow>
      count (getStorageStats browser s) = int (length (savedViews s)) \<and>
      limit (getStorageStats browser s) = 50 \<and>
      percentFull (getStorageStats browser s) =
        round (100 * real_of_int (count (getStorageStats browser s)) /
               real_of_int (limit (getStorageStats browser s)))) \<and>
   (\<not> browser \<longrightarrow> getStorageStats browser s = \<lparr> count = 0, limit = 50, percentFull = 0 \<rparr>)"
  by (simp add: getStorageStats_def Let_def)

text \<open>C9 at work: two views fill 4 percent; outside a browser the defaults come back.\<close>

theorem getStorageStats_values_witness:
  "getStorageStats True twoViewStore = \<lparr> count = 2, limit = 50, percentFull = 4 \<rparr> \<and>
   getStorageStats False twoViewStore = \<lparr> count = 0, limit = 50, percentFull = 0 \<rparr>"
  using getStorageStats_values [of True twoViewStore] getStorageStats_values [of False twoViewStore]
  by (simp add: example_defs getStorageStats_def)

subsection \<open>C10: what load returns\<close>

text \<open>
  Claim C10. When the id is present, the view that \<open>load(id)\<close> returns is the one found
  before the usage statistics were updated: it is a view of the collection as it was, and
  the view stored under that id afterwards has a \<open>usageCount\<close> greater by 1 and the new
  \<open>lastUsed\<close>.
\<close>

theorem load_returns_snapshot:
  "browser \<Longrightarrow> find (\<lambda>w. idV w = i) (savedViews s) = Some v \<Longrightarrow>
   \<exists>s'. load browser clk i s = Inr (Some v, s') \<and>
     v \<in> set (savedViews s) \<and>
     find (\<lambda>w. idV w = i) (savedViews s') =
       Some (v\<lparr> usageCount := usageCount v + 1, lastUsed := clk (ticks s) \<rparr>)"
proof -
  assume b: browser and f: "find (\<lambda>w. idV w = i) (savedViews s) = Some v"
  from f have mem: "v \<in> set (savedViews s)"
    by (auto simp: find_Some_iff)
  have "find (\<lambda>w. idV w = i)
      (mapMatching clk i (\<lambda>v t. v\<lparr> usageCount := usageCount v + 1, lastUsed := t \<rparr>)
         (ticks s) (savedViews s)) =
    Some (v\<lparr> usageCount := usageCount v + 1, lastUsed := clk (ticks s) \<rparr>)"
    using f by (simp add: find_mapMatching)
  with b f mem show ?thesis
    by (simp add: load_def Let_def)
qed

text \<open>
  C10 at work: view \<open>b\<close> was used twice; \<open>load\<close> returns it with \<open>usageCount\<close> 2 and
  stores it with \<open>usageCount\<close> 3.
\<close>

theorem load_returns_snapshot_witness:
  "True \<and> find (\<lambda>w. idV w = ''b'') (savedViews twoViewStore) = Some (viewAt ''b'' ''Beta'' 2 950) \<and>
   (\<exists>s'. load True tickingClock ''b'' twoViewStore = Inr (Some (viewAt ''b'' ''Beta'' 2 950), s') \<and>
      find (\<lambda>w. idV w = ''b'') (savedViews s') =
        Some ((viewAt ''b'' ''Beta'' 2 950)\<lparr> usageCount := 3, lastUsed := 1000 \<rparr>)) \<and>
   usageCount (viewAt ''b'' ''Beta'' 2 950) = 2"
proof -
  have f: "find (\<lambda>w. idV w = ''b'') (savedViews twoViewStore) = Some (viewAt ''b'' ''Beta'' 2 950)"
    by (simp add: example_defs)
  from load_returns_snapshot [OF TrueI f, of tickingClock] f show ?thesis
    by (simp add: example_defs)
qed

end
